theory Spec2Isabelle
  imports Main
begin

section \<open>The pushdown state machine of pdfsm.h\<close>

text \<open>
  The development follows \<^verbatim>\<open>src/pdfsm.h\<close>. A state is an enum value used as an
  integer index (\<^verbatim>\<open>C(state)\<close> is the cast to \<^verbatim>\<open>int\<close>), so states are
  integers here. The arrays of the header (\<^verbatim>\<open>tt\<close>, \<^verbatim>\<open>bt\<close>,
  \<^verbatim>\<open>stack\<close>) are lists whose length is the template constant \<^verbatim>\<open>N\<close>; an
  access outside an array, a call through a behavior pointer that \<^verbatim>\<open>setup\<close> never
  wrote, and a dereference of the null machine pointer have no defined behaviour in C++ and
  are the outcome \<open>Undefined\<close>. Assertions are taken as compiled in (a failed one is
  \<open>AssertionFailed\<close>), and the \<^verbatim>\<open>std::runtime_error\<close> of \<^verbatim>\<open>check\<close> is
  \<open>InvalidJump from to\<close>. A failure carries the handler state at the point where it
  happened: a C++ exception does not roll anything back.

  The cursor \<^verbatim>\<open>top\<close> is an \<^verbatim>\<open>int\<close>. It is only incremented right after it
  was \<open>-1\<close> or a valid index, and only decremented when it was a valid index, so no
  signed overflow can precede an out-of-range access and unbounded integers model it.
\<close>

type_synonym State = int

definition C :: "State \<Rightarrow> int" where
  "C state = state"

datatype error = InvalidJump int int | AssertionFailed | Undefined

datatype hook = SetupH | EnterH | TerminateH | PauseH | ResumeH | BeforeUpdateH | UpdateH

record StateMachine =
  stack :: "int list"
  top_idx :: int

text \<open>
  The handler: the transition table \<open>tt\<close>, the machine being handled \<open>m\<close>
  (\<open>None\<close> is the null pointer; a bound record is held by value, since one record is
  bound at a time), and two components the header does not have: \<open>trace\<close>, the list of
  hook calls the handler has dispatched (the hook and the index into \<^verbatim>\<open>bt\<close> it was
  called through), and \<open>user\<close>, the data that hook bodies reach through the context.
\<close>

record 'u StateMachineHandler =
  tt :: "bool list list"
  m :: "StateMachine option"
  trace :: "(hook \<times> int) list"
  user :: 'u

type_synonym ('u, 'a) M = "'u StateMachineHandler \<Rightarrow> (error \<times> 'u StateMachineHandler) + ('a \<times> 'u StateMachineHandler)"

text \<open>
  A behavior is user code with a pointer to its handler (\<^verbatim>\<open>GetHandler()\<close>), so each
  hook is a function on the handler state that may fail. The array \<^verbatim>\<open>bt\<close> of
  behavior pointers is kept beside the handler record, because the hooks take that record as
  their argument; an entry \<open>None\<close> is a pointer that was never written.
\<close>

record ('c, 'u) IStateBehavior =
  StateValue :: State
  OnSetup :: "('u, unit) M"
  OnEnter :: "'c \<Rightarrow> ('u, unit) M"
  OnTerminate :: "'c \<Rightarrow> ('u, unit) M"
  OnPause :: "'c \<Rightarrow> ('u, unit) M"
  OnResume :: "'c \<Rightarrow> ('u, unit) M"
  BeforeUpdate :: "'c \<Rightarrow> ('u, bool) M"
  Update :: "'c \<Rightarrow> ('u, unit) M"

record Transition =
  from_state :: State
  targets :: "State list"

subsection \<open>Sequencing, failure and array access\<close>

definition ret :: "'a \<Rightarrow> ('u, 'a) M" where
  "ret x h = Inr (x, h)"

definition throw :: "error \<Rightarrow> ('u, 'a) M" where
  "throw e h = Inl (e, h)"

definition bnd :: "('u, 'a) M \<Rightarrow> ('a \<Rightarrow> ('u, 'b) M) \<Rightarrow> ('u, 'b) M" where
  "bnd f g h = (case f h of Inl eh \<Rightarrow> Inl eh | Inr (x, h') \<Rightarrow> g x h')"

definition array_get :: "'a list \<Rightarrow> int \<Rightarrow> 'a option" where
  "array_get xs i = (if 0 \<le> i \<and> i < int (length xs) then Some (xs ! nat i) else None)"

definition array_set :: "'a list \<Rightarrow> int \<Rightarrow> 'a \<Rightarrow> 'a list option" where
  "array_set xs i v = (if 0 \<le> i \<and> i < int (length xs) then Some (xs[nat i := v]) else None)"

text \<open>\<^verbatim>\<open>assert(m != nullptr)\<close>\<close>

definition assert_bound :: "('u, unit) M" where
  "assert_bound h = (if m h = None then Inl (AssertionFailed, h) else Inr ((), h))"

text \<open>\<^verbatim>\<open>m->top\<close>, read and written through the machine pointer.\<close>

definition get_top :: "('u, int) M" where
  "get_top h = (case m h of None \<Rightarrow> Inl (Undefined, h) | Some fsm \<Rightarrow> Inr (top_idx fsm, h))"

definition set_top :: "int \<Rightarrow> ('u, unit) M" where
  "set_top t h = (case m h of None \<Rightarrow> Inl (Undefined, h)
     | Some fsm \<Rightarrow> Inr ((), h\<lparr>m := Some (fsm\<lparr>top_idx := t\<rparr>)\<rparr>))"

text \<open>\<^verbatim>\<open>m->stack[i]\<close>, read and written.\<close>

definition read_stack :: "int \<Rightarrow> ('u, int) M" where
  "read_stack i h = (case m h of None \<Rightarrow> Inl (Undefined, h)
     | Some fsm \<Rightarrow> (case array_get (stack fsm) i of None \<Rightarrow> Inl (Undefined, h)
         | Some s \<Rightarrow> Inr (s, h)))"

definition write_stack :: "int \<Rightarrow> int \<Rightarrow> ('u, unit) M" where
  "write_stack i x h = (case m h of None \<Rightarrow> Inl (Undefined, h)
     | Some fsm \<Rightarrow> (case array_set (stack fsm) i x of None \<Rightarrow> Inl (Undefined, h)
         | Some st \<Rightarrow> Inr ((), h\<lparr>m := Some (fsm\<lparr>stack := st\<rparr>)\<rparr>)))"

text \<open>\<^verbatim>\<open>m->stack[m->top]\<close>\<close>

definition stack_at_top :: "('u, int) M" where
  "stack_at_top = bnd get_top read_stack"

text \<open>
  A call \<^verbatim>\<open>bt[i]->Hook(ctx)\<close>: the pointer is read from the array, the call is
  recorded in the trace, and the hook body runs.
\<close>

definition call :: "('c, 'u) IStateBehavior option list \<Rightarrow> int \<Rightarrow>
    (('c, 'u) IStateBehavior \<Rightarrow> 'c \<Rightarrow> ('u, 'a) M) \<Rightarrow> hook \<Rightarrow> 'c \<Rightarrow> ('u, 'a) M" where
  "call bt i hookfn tag ctx h =
     (case array_get bt i of
        None \<Rightarrow> Inl (Undefined, h)
      | Some None \<Rightarrow> Inl (Undefined, h)
      | Some (Some b) \<Rightarrow> hookfn b ctx (h\<lparr>trace := trace h @ [(tag, i)]\<rparr>))"

subsection \<open>The handler's operations\<close>

text \<open>
  \<^verbatim>\<open>tt[from][to]\<close>: a row of the array of bitsets, then a bit of the row.
  \<^verbatim>\<open>check\<close> throws a runtime error if the transition is invalid.
\<close>

definition lookup_tt :: "'u StateMachineHandler \<Rightarrow> int \<Rightarrow> int \<Rightarrow> bool option" where
  "lookup_tt h from to =
     (case array_get (tt h) from of None \<Rightarrow> None | Some row \<Rightarrow> array_get row to)"

definition check :: "int \<Rightarrow> int \<Rightarrow> ('u, unit) M" where
  "check from to h =
     (case lookup_tt h from to of
        None \<Rightarrow> Inl (Undefined, h)
      | Some allowed \<Rightarrow> if \<not> allowed then Inl (InvalidJump from to, h) else Inr ((), h))"

definition Jump :: "('c, 'u) IStateBehavior option list \<Rightarrow> 'c \<Rightarrow> State \<Rightarrow> ('u, unit) M" where
  "Jump bt ctx to =
     bnd assert_bound (\<lambda>_.
     let x = C to in
     bnd get_top (\<lambda>t.
     bnd (if t \<noteq> -1 then
            bnd stack_at_top (\<lambda>cur.
            bnd (check cur x) (\<lambda>_.
            bnd stack_at_top (\<lambda>cur'.
            bnd get_top (\<lambda>t'.
            bnd (set_top (t' - 1)) (\<lambda>_.
            call bt cur' OnTerminate TerminateH ctx)))))
          else ret ()) (\<lambda>_.
     bnd get_top (\<lambda>t'.
     bnd (set_top (t' + 1)) (\<lambda>_.
     bnd (write_stack (t' + 1) x) (\<lambda>_.
     call bt x OnEnter EnterH ctx))))))"

definition Push :: "('c, 'u) IStateBehavior option list \<Rightarrow> 'c \<Rightarrow> State \<Rightarrow> ('u, unit) M" where
  "Push bt ctx to =
     bnd assert_bound (\<lambda>_.
     let x = C to in
     bnd get_top (\<lambda>t.
     bnd (if t \<noteq> -1 then
            bnd stack_at_top (\<lambda>cur.
            bnd (check cur x) (\<lambda>_.
            bnd stack_at_top (\<lambda>cur'.
            call bt cur' OnPause PauseH ctx)))
          else ret ()) (\<lambda>_.
     bnd get_top (\<lambda>t'.
     bnd (set_top (t' + 1)) (\<lambda>_.
     bnd (write_stack (t' + 1) x) (\<lambda>_.
     call bt x OnEnter EnterH ctx))))))"

definition Pop :: "('c, 'u) IStateBehavior option list \<Rightarrow> 'c \<Rightarrow> ('u, unit) M" where
  "Pop bt ctx =
     bnd assert_bound (\<lambda>_.
     bnd get_top (\<lambda>t.
     bnd (if t \<ge> 0 then ret () else throw AssertionFailed) (\<lambda>_.
     bnd stack_at_top (\<lambda>cur.
     bnd get_top (\<lambda>t'.
     bnd (set_top (t' - 1)) (\<lambda>_.
     bnd (call bt cur OnTerminate TerminateH ctx) (\<lambda>_.
     bnd stack_at_top (\<lambda>cur'.
     call bt cur' OnResume ResumeH ctx))))))))"

definition Update_handler :: "('c, 'u) IStateBehavior option list \<Rightarrow> 'c \<Rightarrow> ('u, unit) M" where
  "Update_handler bt ctx =
     bnd assert_bound (\<lambda>_.
     bnd stack_at_top (\<lambda>cur.
     bnd (call bt cur BeforeUpdate BeforeUpdateH ctx) (\<lambda>stop.
     if stop then ret ()
     else bnd stack_at_top (\<lambda>cur'.
          call bt cur' Update UpdateH ctx))))"

definition Top :: "('u, State) M" where
  "Top =
     bnd assert_bound (\<lambda>_.
     bnd get_top (\<lambda>t.
     bnd (if t \<ge> 0 then ret () else throw AssertionFailed) (\<lambda>_.
     stack_at_top)))"

definition SetHandlingFsm ::
    "('c, 'u) IStateBehavior option list \<Rightarrow> StateMachine \<Rightarrow> 'c \<Rightarrow> ('u, unit) M" where
  "SetHandlingFsm bt fsm ctx =
     bnd (\<lambda>h. Inr ((), h\<lparr>m := Some fsm\<rparr>)) (\<lambda>_.
     bnd get_top (\<lambda>t.
     if t = -1 then Jump bt ctx 0 else ret ()))"

definition ClearHandlingFsm :: "('u, unit) M" where
  "ClearHandlingFsm h = Inr ((), h\<lparr>m := None\<rparr>)"

subsection \<open>Setup and construction\<close>

text \<open>
  \<^verbatim>\<open>tt[from][to] = 1\<close>, and the two loops of \<^verbatim>\<open>setup\<close>. The behaviors loop
  writes the pointer at the index of the behavior's state value and calls its
  \<^verbatim>\<open>OnSetup\<close>; \<^verbatim>\<open>bindHandler\<close> gives the behavior the handler pointer, which
  the hooks here receive as their argument.
\<close>

definition set_tt :: "int \<Rightarrow> int \<Rightarrow> ('u, unit) M" where
  "set_tt from to h =
     (case array_get (tt h) from of
        None \<Rightarrow> Inl (Undefined, h)
      | Some row \<Rightarrow> (case array_set row to True of
          None \<Rightarrow> Inl (Undefined, h)
        | Some row' \<Rightarrow> Inr ((), h\<lparr>tt := (tt h)[nat from := row']\<rparr>)))"

fun setup_targets :: "State \<Rightarrow> State list \<Rightarrow> ('u, unit) M" where
  "setup_targets from [] = ret ()"
| "setup_targets from (to # tos) = bnd (set_tt (C from) (C to)) (\<lambda>_. setup_targets from tos)"

fun setup_transitions :: "Transition list \<Rightarrow> ('u, unit) M" where
  "setup_transitions [] = ret ()"
| "setup_transitions (t # ts) =
     bnd (setup_targets (from_state t) (targets t)) (\<lambda>_. setup_transitions ts)"

fun setup_behaviors :: "('c, 'u) IStateBehavior list \<Rightarrow> ('c, 'u) IStateBehavior option list \<Rightarrow>
    ('u, ('c, 'u) IStateBehavior option list) M" where
  "setup_behaviors [] bt = ret bt"
| "setup_behaviors (b # bs) bt =
     (let state = StateValue b in
      case array_set bt (C state) (Some b) of
        None \<Rightarrow> throw Undefined
      | Some bt' \<Rightarrow>
          bnd (\<lambda>h. OnSetup b (h\<lparr>trace := trace h @ [(SetupH, C state)]\<rparr>)) (\<lambda>_.
          setup_behaviors bs bt'))"

definition setup_handler :: "('c, 'u) IStateBehavior list \<Rightarrow> Transition list \<Rightarrow>
    ('c, 'u) IStateBehavior option list \<Rightarrow> ('u, ('c, 'u) IStateBehavior option list) M" where
  "setup_handler behaviors transitions bt =
     bnd (setup_behaviors behaviors bt) (\<lambda>bt'.
     bnd (setup_transitions transitions) (\<lambda>_.
     ret bt'))"

text \<open>
  The constructor runs \<^verbatim>\<open>setup\<close> on a new handler: the bitsets are all zero, the
  behavior pointers are not written yet, and no machine is bound. \<open>N\<close> is the template
  constant \<^verbatim>\<open>static_cast<int>(State::N)\<close>.
\<close>

definition construct :: "nat \<Rightarrow> ('c, 'u) IStateBehavior list \<Rightarrow> Transition list \<Rightarrow> 'u \<Rightarrow>
    (error \<times> 'u StateMachineHandler) +
    (('c, 'u) IStateBehavior option list \<times> 'u StateMachineHandler)" where
  "construct N behaviors transitions u =
     setup_handler behaviors transitions (replicate N None)
       \<lparr>tt = replicate N (replicate N False), m = None, trace = [], user = u\<rparr>"

text \<open>
  \<^verbatim>\<open>StateBehavior<EnumValue>\<close> with the hooks of the interface as they are when not
  overridden: empty bodies, and \<^verbatim>\<open>BeforeUpdate\<close> returns false.
\<close>

definition StateBehavior :: "State \<Rightarrow> ('c, 'u) IStateBehavior" where
  "StateBehavior EnumValue =
     \<lparr>StateValue = EnumValue, OnSetup = ret (), OnEnter = (\<lambda>ctx. ret ()),
      OnTerminate = (\<lambda>ctx. ret ()), OnPause = (\<lambda>ctx. ret ()), OnResume = (\<lambda>ctx. ret ()),
      BeforeUpdate = (\<lambda>ctx. ret False), Update = (\<lambda>ctx. ret ())\<rparr>"

subsection \<open>Client programs\<close>

text \<open>A caller of the handler issues a sequence of calls; the first failure ends it.\<close>

datatype request =
    Do_SetHandlingFsm StateMachine
  | Do_ClearHandlingFsm
  | Do_Top
  | Do_Update
  | Do_Jump State
  | Do_Push State
  | Do_Pop

fun perform :: "('c, 'u) IStateBehavior option list \<Rightarrow> 'c \<Rightarrow> request \<Rightarrow> ('u, unit) M" where
  "perform bt ctx (Do_SetHandlingFsm fsm) = SetHandlingFsm bt fsm ctx"
| "perform bt ctx Do_ClearHandlingFsm = ClearHandlingFsm"
| "perform bt ctx Do_Top = bnd Top (\<lambda>_. ret ())"
| "perform bt ctx Do_Update = Update_handler bt ctx"
| "perform bt ctx (Do_Jump to) = Jump bt ctx to"
| "perform bt ctx (Do_Push to) = Push bt ctx to"
| "perform bt ctx Do_Pop = Pop bt ctx"

fun run :: "('c, 'u) IStateBehavior option list \<Rightarrow> 'c \<Rightarrow> request list \<Rightarrow> ('u, unit) M" where
  "run bt ctx [] = ret ()"
| "run bt ctx (r # rs) = bnd (perform bt ctx r) (\<lambda>_. run bt ctx rs)"

definition outcome_state ::
    "(error \<times> 'u StateMachineHandler) + ('a \<times> 'u StateMachineHandler) \<Rightarrow> 'u StateMachineHandler" where
  "outcome_state r = (case r of Inl (e, h) \<Rightarrow> h | Inr (x, h) \<Rightarrow> h)"



text \<open>The tables of the repository: the states A, B, C of the tests, and the robot of the
  example program (Idle, Moving, Dancing), with hooks that are not overridden.\<close>

definition transitionTable :: "Transition list" where
  "transitionTable =
     [\<lparr>from_state = 0, targets = [1, 2]\<rparr>, \<lparr>from_state = 1, targets = [2]\<rparr>]"

definition behaviorTable :: "(unit, unit) IStateBehavior list" where
  "behaviorTable = [StateBehavior 0, StateBehavior 1, StateBehavior 2]"

definition robot_transitions :: "Transition list" where
  "robot_transitions =
     [\<lparr>from_state = 0, targets = [1, 2]\<rparr>, \<lparr>from_state = 1, targets = [0, 2]\<rparr>,
      \<lparr>from_state = 2, targets = [0]\<rparr>]"

text \<open>The handlers these tables build, with a machine and a trace put in, and the array
  of behavior pointers.\<close>

definition test_handler :: "StateMachine option \<Rightarrow> (hook \<times> int) list \<Rightarrow> unit StateMachineHandler" where
  "test_handler fsm tr =
     \<lparr>tt = [[False, True, True], [False, False, True], [False, False, False]],
      m = fsm, trace = tr, user = ()\<rparr>"

definition robot_handler :: "StateMachine option \<Rightarrow> (hook \<times> int) list \<Rightarrow> unit StateMachineHandler" where
  "robot_handler fsm tr =
     \<lparr>tt = [[False, True, True], [True, False, True], [True, False, False]],
      m = fsm, trace = tr, user = ()\<rparr>"

definition test_bt :: "(unit, unit) IStateBehavior option list" where
  "test_bt = map Some behaviorTable"

text \<open>
  The behaviors A and B of the tests on a tick where their signal has arrived: BeforeUpdate
  asks the handler to jump (A to B on x, B to C on z) and returns true. The hook reaches the
  handler through \<^verbatim>\<open>GetHandler()\<close>; a jump only calls OnTerminate and OnEnter, which
  these behaviors do not override, so the hook is written with the array of the plain
  behaviors.
\<close>

definition jump_on_signal :: "(unit, unit) IStateBehavior option list \<Rightarrow> State \<Rightarrow> State \<Rightarrow>
    (unit, unit) IStateBehavior" where
  "jump_on_signal bt EnumValue to =
     (StateBehavior EnumValue)\<lparr>BeforeUpdate := (\<lambda>ctx. bnd (Jump bt ctx to) (\<lambda>_. ret True))\<rparr>"

definition signal_bt :: "(unit, unit) IStateBehavior option list" where
  "signal_bt =
     [Some (jump_on_signal test_bt 0 1), Some (jump_on_signal test_bt 1 2), Some (StateBehavior 2)]"

text \<open>
  A behavior whose BeforeUpdate makes a call to the handler and then returns false, so that
  the tick goes on: one that jumps from A to B, and one that pops B. As above, the calls are
  written with the array of the plain behaviors, which has the same OnTerminate, OnEnter and
  OnResume hooks.
\<close>

definition continue_after :: "State \<Rightarrow> (unit \<Rightarrow> (unit, unit) M) \<Rightarrow> (unit, unit) IStateBehavior" where
  "continue_after EnumValue request =
     (StateBehavior EnumValue)\<lparr>BeforeUpdate := (\<lambda>ctx. bnd (request ctx) (\<lambda>_. ret False))\<rparr>"

definition jumping_bt :: "(unit, unit) IStateBehavior option list" where
  "jumping_bt =
     [Some (continue_after 0 (\<lambda>ctx. Jump test_bt ctx 1)), Some (StateBehavior 1),
      Some (StateBehavior 2)]"

definition popping_bt :: "(unit, unit) IStateBehavior option list" where
  "popping_bt =
     [Some (StateBehavior 0), Some (continue_after 1 (\<lambda>ctx. Pop test_bt ctx)),
      Some (StateBehavior 2)]"

subsection \<open>Vocabulary of the statements\<close>

text \<open>The state at the cursor (none when the cursor is outside the array, as for the
  empty stack), and the depth of the stack.\<close>

definition top_state :: "StateMachine \<Rightarrow> State option" where
  "top_state fsm = array_get (stack fsm) (top_idx fsm)"

definition depth :: "StateMachine \<Rightarrow> int" where
  "depth fsm = top_idx fsm + 1"





text \<open>
  What a transition table lists: the pair (from, to) is listed when some entry has that from
  state and has to among its targets.
\<close>

definition listed :: "Transition list \<Rightarrow> int \<Rightarrow> int \<Rightarrow> bool" where
  "listed transitions from to \<longleftrightarrow>
     (\<exists>t \<in> set transitions. C (from_state t) = from \<and> to \<in> C ` set (targets t))"

text \<open>
  A hook body is quiet when it returns normally and leaves the transition table, the bound
  record and the trace as they were: it does not call back into the handler. It may change
  the user data.
\<close>

definition quiet :: "('c \<Rightarrow> ('u, 'a) M) \<Rightarrow> bool" where
  "quiet f \<longleftrightarrow> (\<forall>ctx h. case f ctx h of Inl _ \<Rightarrow> False
     | Inr (_, h') \<Rightarrow> tt h' = tt h \<and> m h' = m h \<and> trace h' = trace h)"

definition quiet_behavior :: "('c, 'u) IStateBehavior \<Rightarrow> bool" where
  "quiet_behavior b \<longleftrightarrow> quiet (\<lambda>_ :: unit. OnSetup b) \<and> quiet (OnEnter b) \<and>
     quiet (OnTerminate b) \<and> quiet (OnPause b) \<and> quiet (OnResume b) \<and>
     quiet (BeforeUpdate b) \<and> quiet (Update b)"

definition quiet_table :: "('c, 'u) IStateBehavior option list \<Rightarrow> bool" where
  "quiet_table bt \<longleftrightarrow> (\<forall>b. Some b \<in> set bt \<longrightarrow> quiet_behavior b)"

section \<open>Properties\<close>

subsection \<open>Auxiliary facts\<close>

lemmas M_defs = bnd_def ret_def throw_def assert_bound_def get_top_def set_top_def
  read_stack_def write_stack_def stack_at_top_def call_def check_def Let_def

lemma quietE:
  assumes "quiet f"
  obtains r g where "\<And>ctx h. f ctx h = Inr (r ctx h, h\<lparr>user := g ctx h\<rparr>)"
proof -
  have "f ctx h = Inr (fst (projr (f ctx h)), h\<lparr>user := user (snd (projr (f ctx h)))\<rparr>)" for ctx h
  proof -
    from assms have *: "case f ctx h of Inl _ \<Rightarrow> False
       | Inr (_, h') \<Rightarrow> tt h' = tt h \<and> m h' = m h \<and> trace h' = trace h"
      unfolding quiet_def by blast
    show ?thesis
    proof (cases "f ctx h")
      case (Inl a)
      with * show ?thesis by simp
    next
      case (Inr p)
      obtain x h' where p: "p = (x, h')" by (cases p)
      from * Inr p have "tt h' = tt h" "m h' = m h" "trace h' = trace h" by simp_all
      then have "h' = h\<lparr>user := user h'\<rparr>" by (cases h, cases h') simp
      with Inr p show ?thesis by simp
    qed
  qed
  then show thesis by (rule that)
qed

lemma top_state_nonempty: "top_state fsm = Some cur \<Longrightarrow> top_idx fsm \<noteq> -1"
  by (auto simp: top_state_def array_get_def split: if_splits)

lemma top_state_bounds:
  "top_state fsm = Some cur \<Longrightarrow> 0 \<le> top_idx fsm \<and> top_idx fsm < int (length (stack fsm))"
  by (auto simp: top_state_def array_get_def split: if_splits)

lemmas fixture_defs = test_handler_def robot_handler_def test_bt_def behaviorTable_def
  StateBehavior_def top_state_def lookup_tt_def array_get_def array_set_def C_def

lemma quiet_StateBehavior:
  "quiet (OnEnter (StateBehavior s))" "quiet (OnTerminate (StateBehavior s))"
  "quiet (OnPause (StateBehavior s))" "quiet (OnResume (StateBehavior s))"
  "quiet (BeforeUpdate (StateBehavior s))" "quiet (Update (StateBehavior s))"
  "quiet (\<lambda>_ :: unit. OnSetup (StateBehavior s))"
  by (simp_all add: quiet_def StateBehavior_def ret_def)

lemma quiet_behavior_StateBehavior: "quiet_behavior (StateBehavior s)"
  by (simp add: quiet_behavior_def quiet_StateBehavior)


lemma construct_test:
  "construct 3 behaviorTable transitionTable () =
     Inr (test_bt, test_handler None [(SetupH, 0), (SetupH, 1), (SetupH, 2)])"
  by (simp add: construct_def setup_handler_def transitionTable_def M_defs fixture_defs
      set_tt_def numeral_3_eq_3)

lemma construct_robot:
  "construct 3 behaviorTable robot_transitions () =
     Inr (test_bt, robot_handler None [(SetupH, 0), (SetupH, 1), (SetupH, 2)])"
  by (simp add: construct_def setup_handler_def robot_transitions_def M_defs fixture_defs
      set_tt_def numeral_3_eq_3)

text \<open>
  The scenarios of the repository's tests, with the calls recorded in the trace: push and
  pop (OnEnter A, OnPause A, OnEnter B, OnTerminate B, OnResume A), the rejected jump from B
  back to A, and the updates (A once, B twice, C once).
\<close>

lemma pdfsm_test_1:
  "run test_bt () [Do_SetHandlingFsm \<lparr>stack = [0, 0, 0], top_idx = -1\<rparr>, Do_Push 1, Do_Pop,
       Do_ClearHandlingFsm] (test_handler None []) =
     Inr ((), test_handler None
       [(EnterH, 0), (PauseH, 0), (EnterH, 1), (TerminateH, 1), (ResumeH, 0)])"
  by (simp add: SetHandlingFsm_def ClearHandlingFsm_def Jump_def Push_def Pop_def M_defs
      fixture_defs)

lemma pdfsm_test_2:
  "run test_bt () [Do_SetHandlingFsm \<lparr>stack = [0, 0, 0], top_idx = -1\<rparr>, Do_Push 1, Do_Jump 0]
       (test_handler None []) =
     Inl (InvalidJump 1 0, test_handler (Some \<lparr>stack = [0, 1, 0], top_idx = 1\<rparr>)
       [(EnterH, 0), (PauseH, 0), (EnterH, 1)])"
  by (simp add: SetHandlingFsm_def Jump_def Push_def M_defs fixture_defs)

lemma pdfsm_test_3:
  "run test_bt () [Do_SetHandlingFsm \<lparr>stack = [0, 0, 0], top_idx = -1\<rparr>, Do_Update, Do_Push 1,
       Do_Update, Do_Push 2, Do_Update, Do_Pop, Do_Update, Do_ClearHandlingFsm]
       (test_handler None []) =
     Inr ((), test_handler None
       [(EnterH, 0), (BeforeUpdateH, 0), (UpdateH, 0),
        (PauseH, 0), (EnterH, 1), (BeforeUpdateH, 1), (UpdateH, 1),
        (PauseH, 1), (EnterH, 2), (BeforeUpdateH, 2), (UpdateH, 2),
        (TerminateH, 2), (ResumeH, 1), (BeforeUpdateH, 1), (UpdateH, 1)])"
  by (simp add: SetHandlingFsm_def ClearHandlingFsm_def Jump_def Push_def Pop_def
      Update_handler_def M_defs fixture_defs)

text \<open>
  The signal test: on the first update A jumps to B and misses its Update, on the second B
  jumps to C. For a jump it makes no difference which of the two arrays is used.
\<close>

lemmas signal_defs = signal_bt_def jump_on_signal_def

lemma pdfsm_test_4:
  "run signal_bt () [Do_SetHandlingFsm \<lparr>stack = [0, 0, 0], top_idx = -1\<rparr>, Do_Update, Do_Update]
       (test_handler None []) =
     Inr ((), test_handler (Some \<lparr>stack = [2, 0, 0], top_idx = 0\<rparr>)
       [(EnterH, 0), (BeforeUpdateH, 0), (TerminateH, 0), (EnterH, 1),
        (BeforeUpdateH, 1), (TerminateH, 1), (EnterH, 2)])"
  by (simp add: SetHandlingFsm_def Jump_def Update_handler_def M_defs fixture_defs signal_defs)

lemma signal_call_same:
  "call signal_bt i OnEnter = call test_bt i OnEnter"
  "call signal_bt i OnTerminate = call test_bt i OnTerminate"
  by (auto simp: fun_eq_iff call_def fixture_defs signal_defs nth_Cons' split: option.splits)

lemma signal_Jump_same: "Jump signal_bt ctx to = Jump test_bt ctx to"
  by (simp add: Jump_def Let_def signal_call_same cong: if_cong)

text \<open>With quiet hooks, every dispatch is either the undefined call or a step that only
  extends the trace and changes the user data.\<close>

lemma quiet_tableD:
  "quiet_table bt \<Longrightarrow> array_get bt i = Some (Some b) \<Longrightarrow> quiet_behavior b"
proof -
  assume q: "quiet_table bt" and l: "array_get bt i = Some (Some b)"
  from l have "0 \<le> i" "nat i < length bt" "bt ! nat i = Some b"
    by (auto simp: array_get_def split: if_splits)
  then have "Some b \<in> set bt" by (metis nth_mem)
  with q show "quiet_behavior b" by (simp add: quiet_table_def)
qed

lemma call_quiet:
  assumes "quiet_table bt" and "\<And>b. quiet_behavior b \<Longrightarrow> quiet (hookfn b)"
  obtains R G where "\<And>i tag ctx h. call bt i hookfn tag ctx h =
     (case array_get bt i of
        Some (Some b) \<Rightarrow> Inr (R i tag ctx h, h\<lparr>trace := trace h @ [(tag, i)], user := G i tag ctx h\<rparr>)
      | _ \<Rightarrow> Inl (Undefined, h))"
proof -
  have "call bt i hookfn tag ctx h =
     (case array_get bt i of
        Some (Some b) \<Rightarrow> Inr (fst (projr (call bt i hookfn tag ctx h)),
           h\<lparr>trace := trace h @ [(tag, i)], user := user (snd (projr (call bt i hookfn tag ctx h)))\<rparr>)
      | _ \<Rightarrow> Inl (Undefined, h))" for i tag ctx h
  proof (cases "array_get bt i")
    case None
    then show ?thesis by (simp add: call_def)
  next
    case (Some ob)
    show ?thesis
    proof (cases ob)
      case None
      with Some show ?thesis by (simp add: call_def)
    next
      case (Some b)
      with \<open>array_get bt i = Some ob\<close> have l: "array_get bt i = Some (Some b)" by simp
      with assms have "quiet (hookfn b)" by (blast dest: quiet_tableD)
      then obtain r g where "\<And>ctx h. hookfn b ctx h = Inr (r ctx h, h\<lparr>user := g ctx h\<rparr>)"
        by (rule quietE) blast
      with l show ?thesis by (simp add: call_def)
    qed
  qed
  then show thesis by (rule that)
qed

lemmas step_defs = bnd_def ret_def throw_def assert_bound_def get_top_def set_top_def
  read_stack_def write_stack_def stack_at_top_def check_def Let_def array_set_def array_get_def

lemma calls_quiet:
  assumes "quiet_table bt"
  obtains G1 G2 G3 G4 R5 G5 G6 where
    "\<And>i tag ctx h. call bt i OnEnter tag ctx h =
       (case array_get bt i of
          Some (Some b) \<Rightarrow> Inr ((), h\<lparr>trace := trace h @ [(tag, i)], user := G1 i tag ctx h\<rparr>)
        | _ \<Rightarrow> Inl (Undefined, h))"
    "\<And>i tag ctx h. call bt i OnTerminate tag ctx h =
       (case array_get bt i of
          Some (Some b) \<Rightarrow> Inr ((), h\<lparr>trace := trace h @ [(tag, i)], user := G2 i tag ctx h\<rparr>)
        | _ \<Rightarrow> Inl (Undefined, h))"
    "\<And>i tag ctx h. call bt i OnPause tag ctx h =
       (case array_get bt i of
          Some (Some b) \<Rightarrow> Inr ((), h\<lparr>trace := trace h @ [(tag, i)], user := G3 i tag ctx h\<rparr>)
        | _ \<Rightarrow> Inl (Undefined, h))"
    "\<And>i tag ctx h. call bt i OnResume tag ctx h =
       (case array_get bt i of
          Some (Some b) \<Rightarrow> Inr ((), h\<lparr>trace := trace h @ [(tag, i)], user := G4 i tag ctx h\<rparr>)
        | _ \<Rightarrow> Inl (Undefined, h))"
    "\<And>i tag ctx h. call bt i BeforeUpdate tag ctx h =
       (case array_get bt i of
          Some (Some b) \<Rightarrow> Inr (R5 i tag ctx h, h\<lparr>trace := trace h @ [(tag, i)], user := G5 i tag ctx h\<rparr>)
        | _ \<Rightarrow> Inl (Undefined, h))"
    "\<And>i tag ctx h. call bt i Update tag ctx h =
       (case array_get bt i of
          Some (Some b) \<Rightarrow> Inr ((), h\<lparr>trace := trace h @ [(tag, i)], user := G6 i tag ctx h\<rparr>)
        | _ \<Rightarrow> Inl (Undefined, h))"
proof -
  from assms obtain R1 G1 where 1: "\<And>i tag ctx h. call bt i OnEnter tag ctx h =
     (case array_get bt i of
        Some (Some b) \<Rightarrow> Inr (R1 i tag ctx h, h\<lparr>trace := trace h @ [(tag, i)], user := G1 i tag ctx h\<rparr>)
      | _ \<Rightarrow> Inl (Undefined, h))"
    by (rule call_quiet [where hookfn = OnEnter]) (simp_all add: quiet_behavior_def)
  from assms obtain R2 G2 where 2: "\<And>i tag ctx h. call bt i OnTerminate tag ctx h =
     (case array_get bt i of
        Some (Some b) \<Rightarrow> Inr (R2 i tag ctx h, h\<lparr>trace := trace h @ [(tag, i)], user := G2 i tag ctx h\<rparr>)
      | _ \<Rightarrow> Inl (Undefined, h))"
    by (rule call_quiet [where hookfn = OnTerminate]) (simp_all add: quiet_behavior_def)
  from assms obtain R3 G3 where 3: "\<And>i tag ctx h. call bt i OnPause tag ctx h =
     (case array_get bt i of
        Some (Some b) \<Rightarrow> Inr (R3 i tag ctx h, h\<lparr>trace := trace h @ [(tag, i)], user := G3 i tag ctx h\<rparr>)
      | _ \<Rightarrow> Inl (Undefined, h))"
    by (rule call_quiet [where hookfn = OnPause]) (simp_all add: quiet_behavior_def)
  from assms obtain R4 G4 where 4: "\<And>i tag ctx h. call bt i OnResume tag ctx h =
     (case array_get bt i of
        Some (Some b) \<Rightarrow> Inr (R4 i tag ctx h, h\<lparr>trace := trace h @ [(tag, i)], user := G4 i tag ctx h\<rparr>)
      | _ \<Rightarrow> Inl (Undefined, h))"
    by (rule call_quiet [where hookfn = OnResume]) (simp_all add: quiet_behavior_def)
  from assms obtain R5 G5 where 5: "\<And>i tag ctx h. call bt i BeforeUpdate tag ctx h =
     (case array_get bt i of
        Some (Some b) \<Rightarrow> Inr (R5 i tag ctx h, h\<lparr>trace := trace h @ [(tag, i)], user := G5 i tag ctx h\<rparr>)
      | _ \<Rightarrow> Inl (Undefined, h))"
    by (rule call_quiet [where hookfn = BeforeUpdate]) (simp_all add: quiet_behavior_def)
  from assms obtain R6 G6 where 6: "\<And>i tag ctx h. call bt i Update tag ctx h =
     (case array_get bt i of
        Some (Some b) \<Rightarrow> Inr (R6 i tag ctx h, h\<lparr>trace := trace h @ [(tag, i)], user := G6 i tag ctx h\<rparr>)
      | _ \<Rightarrow> Inl (Undefined, h))"
    by (rule call_quiet [where hookfn = Update]) (simp_all add: quiet_behavior_def)
  show thesis
    by (rule that [of G1 G2 G3 G4 R5 G5 G6]) (simp_all add: 1 2 3 4 5 6 split: option.splits)
qed

subsection \<open>Push on a full stack\<close>

text \<open>
  C1 (as amended). The header has no capacity check and no overflow error. When the stack is
  full (its depth is the length of the array) and holds a state at the cursor, Push only runs
  the transition check. If the transition table says no, \<^verbatim>\<open>check\<close> throws and
  the handler state is unchanged. If it says yes, Push does not fail cleanly: OnPause has
  been called through the entry of the top state and the cursor has been moved one past the
  last cell when the store \<^verbatim>\<open>m->stack[++m->top] = x\<close> leaves the array, which is
  the undefined outcome.
\<close>

theorem Push_at_capacity:
  assumes "m h = Some fsm"
    and "depth fsm = int (length (stack fsm))"
    and "top_state fsm = Some cur"
    and "lookup_tt h cur (C to) = Some allowed"
    and "array_get bt cur = Some (Some bc)"
    and "quiet (OnPause bc)"
  shows "if allowed
    then \<exists>h'. Push bt ctx to h = Inl (Undefined, h') \<and>
           tt h' = tt h \<and>
           m h' = Some (fsm\<lparr>top_idx := top_idx fsm + 1\<rparr>) \<and>
           trace h' = trace h @ [(PauseH, cur)]
    else Push bt ctx to h = Inl (InvalidJump cur (C to), h)"
proof -
  from assms(6) obtain r g where
    P: "\<And>ctx h. OnPause bc ctx h = Inr (r ctx h, h\<lparr>user := g ctx h\<rparr>)"
    by (rule quietE) blast
  from assms(3) have cur: "array_get (stack fsm) (top_idx fsm) = Some cur"
    by (simp add: top_state_def)
  note ne = top_state_nonempty [OF assms(3)]
  from assms(1,2,4,5) cur ne show ?thesis
    by (simp add: Push_def M_defs P array_set_def depth_def)
qed

theorem Push_at_capacity_witness:
  "m (robot_handler (Some \<lparr>stack = [0, 1, 0], top_idx = 2\<rparr>) []) = Some \<lparr>stack = [0, 1, 0], top_idx = 2\<rparr> \<and>
   depth \<lparr>stack = [0, 1, 0], top_idx = 2\<rparr> = int (length (stack \<lparr>stack = [0, 1, 0], top_idx = 2\<rparr>)) \<and>
   top_state \<lparr>stack = [0, 1, 0], top_idx = 2\<rparr> = Some 0 \<and>
   lookup_tt (robot_handler (Some \<lparr>stack = [0, 1, 0], top_idx = 2\<rparr>) []) 0 (C 1) = Some True \<and>
   lookup_tt (robot_handler (Some \<lparr>stack = [0, 1, 0], top_idx = 2\<rparr>) []) 0 (C 0) = Some False \<and>
   array_get test_bt 0 = Some (Some (StateBehavior 0)) \<and>
   quiet (OnPause (StateBehavior 0 :: (unit, unit) IStateBehavior)) \<and>
   Push test_bt () 1 (robot_handler (Some \<lparr>stack = [0, 1, 0], top_idx = 2\<rparr>) []) =
     Inl (Undefined, robot_handler (Some \<lparr>stack = [0, 1, 0], top_idx = 3\<rparr>) [(PauseH, 0)]) \<and>
   Push test_bt () 0 (robot_handler (Some \<lparr>stack = [0, 1, 0], top_idx = 2\<rparr>) []) =
     Inl (InvalidJump 0 0, robot_handler (Some \<lparr>stack = [0, 1, 0], top_idx = 2\<rparr>) [])"
proof -
  let ?fsm = "\<lparr>stack = [0, 1, 0], top_idx = 2\<rparr>"
  let ?h = "robot_handler (Some ?fsm) []"
  have a: "m ?h = Some ?fsm" by (simp add: robot_handler_def)
  have b: "depth ?fsm = int (length (stack ?fsm))" by (simp add: depth_def)
  have c: "top_state ?fsm = Some 0" by (simp add: top_state_def array_get_def)
  have d: "lookup_tt ?h 0 (C 1) = Some True" by (simp add: fixture_defs)
  have d': "lookup_tt ?h 0 (C 0) = Some False" by (simp add: fixture_defs)
  have e: "array_get test_bt 0 = Some (Some (StateBehavior 0))"
    by (simp add: test_bt_def behaviorTable_def array_get_def)
  have f: "quiet (OnPause (StateBehavior 0 :: (unit, unit) IStateBehavior))"
    by (rule quiet_StateBehavior)
  from Push_at_capacity [OF a b c d e f, of "()"]
  obtain h' where h': "Push test_bt () 1 ?h = Inl (Undefined, h')" "tt h' = tt ?h"
    "m h' = Some (?fsm\<lparr>top_idx := top_idx ?fsm + 1\<rparr>)" "trace h' = trace ?h @ [(PauseH, 0)]"
    by auto
  then have g: "h' = robot_handler (Some \<lparr>stack = [0, 1, 0], top_idx = 3\<rparr>) [(PauseH, 0)]"
    by (cases h') (simp add: robot_handler_def)
  from Push_at_capacity [OF a b c d' e f, of "()"]
  have "Push test_bt () 0 ?h = Inl (InvalidJump 0 0, ?h)" by (simp add: C_def)
  with a b c d d' e f g h' show ?thesis by simp
qed

text \<open>
  The robot of the example program, with its three states, after binding a new record and
  the calls Push(Moving), Push(Idle): the stack is full. Push(Moving) is an allowed
  transition from Idle; it ends in the undefined store, after OnPause was called on Idle
  and with the cursor at 3. Nothing rejected the call, and the record is not as it was.
\<close>

theorem Push_at_capacity_counterexample:
  "run test_bt () [Do_SetHandlingFsm \<lparr>stack = [0, 0, 0], top_idx = -1\<rparr>, Do_Push 1, Do_Push 0]
       (robot_handler None []) =
     Inr ((), robot_handler (Some \<lparr>stack = [0, 1, 0], top_idx = 2\<rparr>)
       [(EnterH, 0), (PauseH, 0), (EnterH, 1), (PauseH, 1), (EnterH, 0)]) \<and>
   depth \<lparr>stack = [0, 1, 0], top_idx = 2\<rparr> = 3 \<and>
   Push test_bt () 1 (robot_handler (Some \<lparr>stack = [0, 1, 0], top_idx = 2\<rparr>)
       [(EnterH, 0), (PauseH, 0), (EnterH, 1), (PauseH, 1), (EnterH, 0)]) =
     Inl (Undefined, robot_handler (Some \<lparr>stack = [0, 1, 0], top_idx = 3\<rparr>)
       [(EnterH, 0), (PauseH, 0), (EnterH, 1), (PauseH, 1), (EnterH, 0), (PauseH, 0)])"
  by (simp add: SetHandlingFsm_def Jump_def Push_def M_defs fixture_defs depth_def)

text \<open>
  Below capacity, an allowed Push pauses the top state, writes the target in the cell above
  it and enters the target.
\<close>

lemma Push_pauses_top:
  assumes "m h = Some fsm"
    and "top_state fsm = Some cur"
    and "top_idx fsm + 1 < int (length (stack fsm))"
    and "lookup_tt h cur (C to) = Some True"
    and "array_get bt cur = Some (Some bc)"
    and "array_get bt (C to) = Some (Some bx)"
    and "quiet (OnPause bc)"
    and "quiet (OnEnter bx)"
  shows "\<exists>h'. Push bt ctx to h = Inr ((), h') \<and> tt h' = tt h \<and>
     m h' = Some (fsm\<lparr>stack := (stack fsm)[nat (top_idx fsm + 1) := C to],
       top_idx := top_idx fsm + 1\<rparr>) \<and>
     trace h' = trace h @ [(PauseH, cur), (EnterH, C to)]"
proof -
  from assms(7) obtain r1 g1 where
    P: "\<And>ctx h. OnPause bc ctx h = Inr (r1 ctx h, h\<lparr>user := g1 ctx h\<rparr>)"
    by (rule quietE) blast
  from assms(8) obtain r2 g2 where
    E: "\<And>ctx h. OnEnter bx ctx h = Inr (r2 ctx h, h\<lparr>user := g2 ctx h\<rparr>)"
    by (rule quietE) blast
  note b = top_state_bounds [OF assms(2)]
  from assms(2) have cur: "array_get (stack fsm) (top_idx fsm) = Some cur"
    by (simp add: top_state_def)
  from b assms(1,3,4,5,6) cur show ?thesis
    by (simp add: Push_def M_defs P E array_set_def)
qed

subsection \<open>Pop\<close>

text \<open>
  C2. The assertion of Pop is \<^verbatim>\<open>m->top >= 0\<close>: it rejects the empty stack, and it
  lets a stack with one entry through. On the record that binding has just started (one
  entry, state 0) Pop calls OnTerminate on state 0, moves the cursor to \<open>-1\<close>, and then
  reads \<^verbatim>\<open>m->stack[-1]\<close> for the state to resume, which is outside the array.
\<close>

theorem Pop_single_entry:
  "Pop test_bt () (test_handler (Some \<lparr>stack = [0, 0, 0], top_idx = -1\<rparr>) []) =
     Inl (AssertionFailed, test_handler (Some \<lparr>stack = [0, 0, 0], top_idx = -1\<rparr>) []) \<and>
   SetHandlingFsm test_bt \<lparr>stack = [0, 0, 0], top_idx = -1\<rparr> () (test_handler None []) =
     Inr ((), test_handler (Some \<lparr>stack = [0, 0, 0], top_idx = 0\<rparr>) [(EnterH, 0)]) \<and>
   Pop test_bt () (test_handler (Some \<lparr>stack = [0, 0, 0], top_idx = 0\<rparr>) [(EnterH, 0)]) =
     Inl (Undefined, test_handler (Some \<lparr>stack = [0, 0, 0], top_idx = -1\<rparr>)
       [(EnterH, 0), (TerminateH, 0)])"
  by (simp add: Pop_def SetHandlingFsm_def Jump_def M_defs fixture_defs)

text \<open>
  With a state below the top, Pop terminates the top state, moves the cursor down by one and
  resumes the state it finds there.
\<close>

lemma Pop_resumes_previous:
  assumes "m h = Some fsm"
    and "top_state fsm = Some cur"
    and "array_get (stack fsm) (top_idx fsm - 1) = Some prev"
    and "array_get bt cur = Some (Some bc)"
    and "array_get bt prev = Some (Some bp)"
    and "quiet (OnTerminate bc)"
    and "quiet (OnResume bp)"
  shows "\<exists>h'. Pop bt ctx h = Inr ((), h') \<and> tt h' = tt h \<and>
     m h' = Some (fsm\<lparr>top_idx := top_idx fsm - 1\<rparr>) \<and>
     trace h' = trace h @ [(TerminateH, cur), (ResumeH, prev)]"
proof -
  from assms(6) obtain r1 g1 where
    T: "\<And>ctx h. OnTerminate bc ctx h = Inr (r1 ctx h, h\<lparr>user := g1 ctx h\<rparr>)"
    by (rule quietE) blast
  from assms(7) obtain r2 g2 where
    R: "\<And>ctx h. OnResume bp ctx h = Inr (r2 ctx h, h\<lparr>user := g2 ctx h\<rparr>)"
    by (rule quietE) blast
  note b = top_state_bounds [OF assms(2)]
  from assms(2) have cur: "array_get (stack fsm) (top_idx fsm) = Some cur"
    by (simp add: top_state_def)
  from b assms(1,3,4,5) cur show ?thesis
    by (simp add: Pop_def M_defs T R)
qed

subsection \<open>Rejected transitions\<close>

text \<open>
  C3. When the transition table says no for the pair (state at the cursor, target), Jump and
  Push both throw the runtime error of \<^verbatim>\<open>check\<close> and the handler state at the throw
  is the state before the call: stack, cursor and trace are unchanged, so no hook was
  called.
\<close>

theorem invalid_transition_atomic:
  assumes "m h = Some fsm"
    and "top_state fsm = Some cur"
    and "lookup_tt h cur (C to) = Some False"
  shows "Jump bt ctx to h = Inl (InvalidJump cur (C to), h) \<and>
         Push bt ctx to h = Inl (InvalidJump cur (C to), h)"
proof -
  from assms(2) have "top_idx fsm \<noteq> -1"
    by (rule top_state_nonempty)
  with assms show ?thesis
    by (simp add: Jump_def Push_def M_defs top_state_def)
qed

theorem invalid_transition_atomic_witness:
  "m (test_handler (Some \<lparr>stack = [0, 1, 0], top_idx = 1\<rparr>) []) = Some \<lparr>stack = [0, 1, 0], top_idx = 1\<rparr> \<and>
   top_state \<lparr>stack = [0, 1, 0], top_idx = 1\<rparr> = Some 1 \<and>
   lookup_tt (test_handler (Some \<lparr>stack = [0, 1, 0], top_idx = 1\<rparr>) []) 1 (C 0) = Some False \<and>
   Jump test_bt () 0 (test_handler (Some \<lparr>stack = [0, 1, 0], top_idx = 1\<rparr>) []) =
     Inl (InvalidJump 1 0, test_handler (Some \<lparr>stack = [0, 1, 0], top_idx = 1\<rparr>) []) \<and>
   Push test_bt () 0 (test_handler (Some \<lparr>stack = [0, 1, 0], top_idx = 1\<rparr>) []) =
     Inl (InvalidJump 1 0, test_handler (Some \<lparr>stack = [0, 1, 0], top_idx = 1\<rparr>) [])"
proof -
  let ?fsm = "\<lparr>stack = [0, 1, 0], top_idx = 1\<rparr>"
  let ?h = "test_handler (Some ?fsm) []"
  have a: "m ?h = Some ?fsm" by (simp add: test_handler_def)
  have b: "top_state ?fsm = Some 1" by (simp add: fixture_defs)
  have c: "lookup_tt ?h 1 (C 0) = Some False" by (simp add: fixture_defs)
  from invalid_transition_atomic [OF a b c, of test_bt "()"] a b c show ?thesis
    by (simp add: C_def)
qed

subsection \<open>Binding a record\<close>



subsection \<open>Jump\<close>



subsection \<open>The depth of the stack\<close>











subsection \<open>Update\<close>

text \<open>
  For the jump and the pop that the behaviors \<open>continue_after\<close> make, it makes no
  difference which of the arrays is used.
\<close>

lemmas reentry_defs = jumping_bt_def popping_bt_def continue_after_def

lemma reentry_calls_same:
  "call jumping_bt i OnEnter = call test_bt i OnEnter"
  "call jumping_bt i OnTerminate = call test_bt i OnTerminate"
  "call popping_bt i OnTerminate = call test_bt i OnTerminate"
  "call popping_bt i OnResume = call test_bt i OnResume"
  by (auto simp: fun_eq_iff call_def fixture_defs reentry_defs nth_Cons' split: option.splits)

lemma reentry_same:
  "Jump jumping_bt ctx to = Jump test_bt ctx to" "Pop popping_bt ctx = Pop test_bt ctx"
  by (simp_all add: Jump_def Pop_def Let_def reentry_calls_same cong: if_cong)

text \<open>
  C7 (as amended). Update calls BeforeUpdate once, through the entry of the state at the
  cursor. If it returns true, Update returns at once: its result is the state BeforeUpdate
  left, and no other hook is called. If it returns false, the handler reads the cursor again
  (line 213 of the header) and calls Update once, through the entry of the state that is at
  the cursor then; the result of the tick is the result of that call. This is the same
  entry as before when BeforeUpdate has left the bound record as it was; when BeforeUpdate
  has moved the machine it is the entry of the state it moved to. The handler calls no
  other entry.
\<close>

theorem Update_ticks_top:
  assumes "m h = Some fsm"
    and "top_state fsm = Some cur"
    and "array_get bt cur = Some (Some b)"
    and "BeforeUpdate b ctx (h\<lparr>trace := trace h @ [(BeforeUpdateH, cur)]\<rparr>) = Inr (stop, h1)"
    and "\<not> stop \<Longrightarrow> m h1 = Some fsm1 \<and> top_state fsm1 = Some cur1 \<and>
       array_get bt cur1 = Some (Some b1)"
  shows "Update_handler bt ctx h =
       (if stop then Inr ((), h1)
        else Update b1 ctx (h1\<lparr>trace := trace h1 @ [(UpdateH, cur1)]\<rparr>)) \<and>
     (\<not> stop \<and> m h1 = m h \<longrightarrow> cur1 = cur \<and> b1 = b)"
proof -
  from assms(2) have cur: "array_get (stack fsm) (top_idx fsm) = Some cur"
    by (simp add: top_state_def)
  have run: "Update_handler bt ctx h =
       (if stop then Inr ((), h1)
        else Update b1 ctx (h1\<lparr>trace := trace h1 @ [(UpdateH, cur1)]\<rparr>))"
  proof (cases stop)
    case True
    with assms(1,3,4) cur show ?thesis
      by (simp add: Update_handler_def M_defs)
  next
    case False
    with assms(5) have n: "m h1 = Some fsm1" "array_get (stack fsm1) (top_idx fsm1) = Some cur1"
      "array_get bt cur1 = Some (Some b1)"
      by (simp_all add: top_state_def)
    with False assms(1,3,4) cur show ?thesis
      by (simp add: Update_handler_def M_defs)
  qed
  have "cur1 = cur \<and> b1 = b" if "\<not> stop" "m h1 = m h"
  proof -
    from assms(5) that(1) have n: "m h1 = Some fsm1" "top_state fsm1 = Some cur1"
      "array_get bt cur1 = Some (Some b1)" by simp_all
    from n(1) that(2) assms(1) have "fsm1 = fsm" by simp
    with n(2) assms(2) have "cur1 = cur" by simp
    with n(3) assms(3) show ?thesis by simp
  qed
  with run show ?thesis by blast
qed

theorem Update_ticks_top_witness:
  "m (test_handler (Some \<lparr>stack = [0, 1, 0], top_idx = 1\<rparr>) []) = Some \<lparr>stack = [0, 1, 0], top_idx = 1\<rparr> \<and>
   top_state \<lparr>stack = [0, 1, 0], top_idx = 1\<rparr> = Some 1 \<and>
   array_get test_bt 1 = Some (Some (StateBehavior 1)) \<and>
   BeforeUpdate (StateBehavior 1) ()
       (test_handler (Some \<lparr>stack = [0, 1, 0], top_idx = 1\<rparr>) [(BeforeUpdateH, 1)]) =
     Inr (False, test_handler (Some \<lparr>stack = [0, 1, 0], top_idx = 1\<rparr>) [(BeforeUpdateH, 1)]) \<and>
   Update_handler test_bt () (test_handler (Some \<lparr>stack = [0, 1, 0], top_idx = 1\<rparr>) []) =
     Inr ((), test_handler (Some \<lparr>stack = [0, 1, 0], top_idx = 1\<rparr>)
       [(BeforeUpdateH, 1), (UpdateH, 1)]) \<and>
   array_get signal_bt 1 = Some (Some (jump_on_signal test_bt 1 2)) \<and>
   BeforeUpdate (jump_on_signal test_bt 1 2) ()
       (test_handler (Some \<lparr>stack = [0, 1, 0], top_idx = 1\<rparr>) [(BeforeUpdateH, 1)]) =
     Inr (True, test_handler (Some \<lparr>stack = [0, 2, 0], top_idx = 1\<rparr>)
       [(BeforeUpdateH, 1), (TerminateH, 1), (EnterH, 2)]) \<and>
   Update_handler signal_bt () (test_handler (Some \<lparr>stack = [0, 1, 0], top_idx = 1\<rparr>) []) =
     Inr ((), test_handler (Some \<lparr>stack = [0, 2, 0], top_idx = 1\<rparr>)
       [(BeforeUpdateH, 1), (TerminateH, 1), (EnterH, 2)]) \<and>
   array_get popping_bt 1 = Some (Some (continue_after 1 (\<lambda>ctx. Pop test_bt ctx))) \<and>
   BeforeUpdate (continue_after 1 (\<lambda>ctx. Pop test_bt ctx)) ()
       (test_handler (Some \<lparr>stack = [0, 1, 0], top_idx = 1\<rparr>) [(BeforeUpdateH, 1)]) =
     Inr (False, test_handler (Some \<lparr>stack = [0, 1, 0], top_idx = 0\<rparr>)
       [(BeforeUpdateH, 1), (TerminateH, 1), (ResumeH, 0)]) \<and>
   top_state \<lparr>stack = [0, 1, 0], top_idx = 0\<rparr> = Some 0 \<and>
   array_get popping_bt 0 = Some (Some (StateBehavior 0)) \<and>
   Update_handler popping_bt () (test_handler (Some \<lparr>stack = [0, 1, 0], top_idx = 1\<rparr>) []) =
     Update (StateBehavior 0) () (test_handler (Some \<lparr>stack = [0, 1, 0], top_idx = 0\<rparr>)
       [(BeforeUpdateH, 1), (TerminateH, 1), (ResumeH, 0), (UpdateH, 0)])"
proof -
  let ?fsm = "\<lparr>stack = [0, 1, 0], top_idx = 1\<rparr>"
  let ?h = "test_handler (Some ?fsm) []"
  let ?h1 = "test_handler (Some ?fsm) [(BeforeUpdateH, 1)]"
  let ?h2 = "test_handler (Some \<lparr>stack = [0, 2, 0], top_idx = 1\<rparr>)
       [(BeforeUpdateH, 1), (TerminateH, 1), (EnterH, 2)]"
  let ?fsm3 = "\<lparr>stack = [0, 1, 0], top_idx = 0\<rparr>"
  let ?h3 = "test_handler (Some ?fsm3) [(BeforeUpdateH, 1), (TerminateH, 1), (ResumeH, 0)]"
  have a: "m ?h = Some ?fsm" by (simp add: test_handler_def)
  have b: "top_state ?fsm = Some 1" by (simp add: top_state_def array_get_def)
  have tr: "?h\<lparr>trace := trace ?h @ [(BeforeUpdateH, 1)]\<rparr> = ?h1"
    by (simp add: test_handler_def)
  (* The plain behavior: BeforeUpdate returns false and has changed nothing. *)
  have c: "array_get test_bt 1 = Some (Some (StateBehavior 1))"
    by (simp add: test_bt_def behaviorTable_def array_get_def)
  have d0: "BeforeUpdate (StateBehavior 1) () ?h1 = Inr (False, ?h1)"
    by (simp add: StateBehavior_def ret_def)
  then have d: "BeforeUpdate (StateBehavior 1) () (?h\<lparr>trace := trace ?h @ [(BeforeUpdateH, 1)]\<rparr>) =
      Inr (False, ?h1)"
    by (simp only: tr)
  have e: "\<not> False \<Longrightarrow> m ?h1 = Some ?fsm \<and> top_state ?fsm = Some 1 \<and>
      array_get test_bt 1 = Some (Some (StateBehavior 1))"
    using b c by (simp add: test_handler_def)
  from Update_ticks_top [OF a b c d e]
  have "Update_handler test_bt () ?h =
      Update (StateBehavior 1) () (?h1\<lparr>trace := trace ?h1 @ [(UpdateH, 1)]\<rparr>)"
    by simp
  then have r1: "Update_handler test_bt () ?h =
      Inr ((), test_handler (Some ?fsm) [(BeforeUpdateH, 1), (UpdateH, 1)])"
    by (simp add: StateBehavior_def ret_def test_handler_def)
  (* The behavior of the signal test: BeforeUpdate jumps and returns true. *)
  have c': "array_get signal_bt 1 = Some (Some (jump_on_signal test_bt 1 2))"
    by (simp add: signal_bt_def array_get_def)
  have d0': "BeforeUpdate (jump_on_signal test_bt 1 2) () ?h1 = Inr (True, ?h2)"
    by (simp add: Jump_def M_defs fixture_defs signal_defs)
  then have d': "BeforeUpdate (jump_on_signal test_bt 1 2) ()
      (?h\<lparr>trace := trace ?h @ [(BeforeUpdateH, 1)]\<rparr>) = Inr (True, ?h2)"
    by (simp only: tr)
  have e': "\<not> True \<Longrightarrow> m ?h2 = Some ?fsm \<and> top_state ?fsm = Some 1 \<and>
      array_get signal_bt 1 = Some (Some (jump_on_signal test_bt 1 2))"
    by simp
  from Update_ticks_top [OF a b c' d' e']
  have r2: "Update_handler signal_bt () ?h = Inr ((), ?h2)" by simp
  (* A behavior that pops and returns false: Update goes to the state below. *)
  have c'': "array_get popping_bt 1 = Some (Some (continue_after 1 (\<lambda>ctx. Pop test_bt ctx)))"
    by (simp add: popping_bt_def array_get_def)
  have d0'': "BeforeUpdate (continue_after 1 (\<lambda>ctx. Pop test_bt ctx)) () ?h1 = Inr (False, ?h3)"
    by (simp add: Pop_def M_defs fixture_defs reentry_defs)
  then have d'': "BeforeUpdate (continue_after 1 (\<lambda>ctx. Pop test_bt ctx)) ()
      (?h\<lparr>trace := trace ?h @ [(BeforeUpdateH, 1)]\<rparr>) = Inr (False, ?h3)"
    by (simp only: tr)
  have b3: "top_state ?fsm3 = Some 0" by (simp add: top_state_def array_get_def)
  have c3: "array_get popping_bt 0 = Some (Some (StateBehavior 0))"
    by (simp add: popping_bt_def array_get_def)
  have e'': "\<not> False \<Longrightarrow> m ?h3 = Some ?fsm3 \<and> top_state ?fsm3 = Some 0 \<and>
      array_get popping_bt 0 = Some (Some (StateBehavior 0))"
    using b3 c3 by (simp add: test_handler_def)
  from Update_ticks_top [OF a b c'' d'' e'']
  have "Update_handler popping_bt () ?h =
      Update (StateBehavior 0) () (?h3\<lparr>trace := trace ?h3 @ [(UpdateH, 0)]\<rparr>)"
    by simp
  then have r3: "Update_handler popping_bt () ?h =
      Update (StateBehavior 0) () (test_handler (Some ?fsm3)
        [(BeforeUpdateH, 1), (TerminateH, 1), (ResumeH, 0), (UpdateH, 0)])"
    by (simp add: test_handler_def)
  from a b c d0 r1 c' d0' r2 c'' d0'' b3 c3 r3 show ?thesis by simp
qed

text \<open>
  A BeforeUpdate that jumps from A to B and returns false: Update is called on B, which was
  not the top state when the tick began, and A gets no Update. A BeforeUpdate of B that
  pops and returns false, with A below: Update is called on A, the state lower in the
  stack.
\<close>

theorem Update_ticks_top_counterexample:
  "Update_handler jumping_bt () (test_handler (Some \<lparr>stack = [0, 0, 0], top_idx = 0\<rparr>) []) =
     Inr ((), test_handler (Some \<lparr>stack = [1, 0, 0], top_idx = 0\<rparr>)
       [(BeforeUpdateH, 0), (TerminateH, 0), (EnterH, 1), (UpdateH, 1)]) \<and>
   Update_handler popping_bt () (test_handler (Some \<lparr>stack = [0, 1, 0], top_idx = 1\<rparr>) []) =
     Inr ((), test_handler (Some \<lparr>stack = [0, 1, 0], top_idx = 0\<rparr>)
       [(BeforeUpdateH, 1), (TerminateH, 1), (ResumeH, 0), (UpdateH, 0)])"
  by (simp add: Update_handler_def Jump_def Pop_def M_defs fixture_defs reentry_defs)

subsection \<open>Setup\<close>

text \<open>No call of the handler writes the transition table, whether it returns or fails.\<close>

lemma perform_keeps_tt:
  assumes "quiet_table bt"
  shows "tt (outcome_state (perform bt ctx r h)) = tt h"
proof -
  from assms obtain G1 G2 G3 G4 R5 G5 G6 where c [simp]:
    "\<And>i tag ctx h. call bt i OnEnter tag ctx h =
       (case array_get bt i of
          Some (Some b) \<Rightarrow> Inr ((), h\<lparr>trace := trace h @ [(tag, i)], user := G1 i tag ctx h\<rparr>)
        | _ \<Rightarrow> Inl (Undefined, h))"
    "\<And>i tag ctx h. call bt i OnTerminate tag ctx h =
       (case array_get bt i of
          Some (Some b) \<Rightarrow> Inr ((), h\<lparr>trace := trace h @ [(tag, i)], user := G2 i tag ctx h\<rparr>)
        | _ \<Rightarrow> Inl (Undefined, h))"
    "\<And>i tag ctx h. call bt i OnPause tag ctx h =
       (case array_get bt i of
          Some (Some b) \<Rightarrow> Inr ((), h\<lparr>trace := trace h @ [(tag, i)], user := G3 i tag ctx h\<rparr>)
        | _ \<Rightarrow> Inl (Undefined, h))"
    "\<And>i tag ctx h. call bt i OnResume tag ctx h =
       (case array_get bt i of
          Some (Some b) \<Rightarrow> Inr ((), h\<lparr>trace := trace h @ [(tag, i)], user := G4 i tag ctx h\<rparr>)
        | _ \<Rightarrow> Inl (Undefined, h))"
    "\<And>i tag ctx h. call bt i BeforeUpdate tag ctx h =
       (case array_get bt i of
          Some (Some b) \<Rightarrow> Inr (R5 i tag ctx h, h\<lparr>trace := trace h @ [(tag, i)], user := G5 i tag ctx h\<rparr>)
        | _ \<Rightarrow> Inl (Undefined, h))"
    "\<And>i tag ctx h. call bt i Update tag ctx h =
       (case array_get bt i of
          Some (Some b) \<Rightarrow> Inr ((), h\<lparr>trace := trace h @ [(tag, i)], user := G6 i tag ctx h\<rparr>)
        | _ \<Rightarrow> Inl (Undefined, h))"
    by (rule calls_quiet) blast
  show ?thesis
  proof (cases r)
    case (Do_SetHandlingFsm fsm)
    then show ?thesis
      by (simp add: outcome_state_def SetHandlingFsm_def Jump_def step_defs lookup_tt_def
          split: if_splits option.splits sum.splits)
  next
    case Do_ClearHandlingFsm
    then show ?thesis by (simp add: outcome_state_def ClearHandlingFsm_def)
  next
    case Do_Top
    then show ?thesis
      by (simp add: outcome_state_def Top_def step_defs split: if_splits option.splits sum.splits)
  next
    case Do_Update
    then show ?thesis
      by (simp add: outcome_state_def Update_handler_def step_defs
          split: if_splits option.splits sum.splits)
  next
    case (Do_Jump to)
    then show ?thesis
      by (simp add: outcome_state_def Jump_def step_defs lookup_tt_def
          split: if_splits option.splits sum.splits)
  next
    case (Do_Push to)
    then show ?thesis
      by (simp add: outcome_state_def Push_def step_defs lookup_tt_def
          split: if_splits option.splits sum.splits)
  next
    case Do_Pop
    then show ?thesis
      by (simp add: outcome_state_def Pop_def step_defs split: if_splits option.splits sum.splits)
  qed
qed

lemma find_SomeD: "List.find P xs = Some x \<Longrightarrow> x \<in> set xs \<and> P x"
  by (induction xs) (auto split: if_splits)

lemma run_keeps_tt:
  assumes "quiet_table bt"
  shows "tt (outcome_state (run bt ctx rs h)) = tt h"
proof (induction rs arbitrary: h)
  case Nil
  show ?case by (simp add: ret_def outcome_state_def)
next
  case (Cons r rs)
  show ?case
  proof (cases "perform bt ctx r h")
    case (Inl eh)
    with perform_keeps_tt [OF assms, of ctx r h] show ?thesis
      by (simp add: bnd_def)
  next
    case (Inr p)
    obtain x h1 where p: "p = (x, h1)" by (cases p)
    with Inr perform_keeps_tt [OF assms, of ctx r h] have "tt h1 = tt h"
      by (simp add: outcome_state_def)
    with Inr p Cons.IH [of h1] show ?thesis
      by (simp add: bnd_def)
  qed
qed

text \<open>The two loops of setup, when every index is inside the arrays.\<close>

lemma find_snoc:
  "List.find P (xs @ [x]) =
     (case List.find P xs of Some y \<Rightarrow> Some y | None \<Rightarrow> if P x then Some x else None)"
  by (induction xs) simp_all

lemma setup_behaviors_quiet:
  "\<forall>b \<in> set bs. 0 \<le> C (StateValue b) \<and> C (StateValue b) < int (length bt) \<and>
       quiet (\<lambda>_ :: unit. OnSetup b) \<Longrightarrow>
   \<exists>bt' h'. setup_behaviors bs bt h = Inr (bt', h') \<and> length bt' = length bt \<and>
     tt h' = tt h \<and> m h' = m h \<and>
     trace h' = trace h @ map (\<lambda>b. (SetupH, C (StateValue b))) bs \<and>
     (\<forall>i. array_get bt' i =
        (case List.find (\<lambda>b. C (StateValue b) = i) (rev bs) of
           Some b \<Rightarrow> Some (Some b) | None \<Rightarrow> array_get bt i))"
proof (induction bs arbitrary: bt h)
  case Nil
  then show ?case by (simp add: ret_def)
next
  case (Cons b bs)
  let ?s = "C (StateValue b)"
  let ?bt1 = "bt[nat ?s := Some b]"
  let ?h0 = "h\<lparr>trace := trace h @ [(SetupH, ?s)]\<rparr>"
  from Cons.prems have s: "0 \<le> ?s" "?s < int (length bt)" and q: "quiet (\<lambda>_ :: unit. OnSetup b)"
    by simp_all
  from q obtain r g where "\<And>(c :: unit) h. OnSetup b h = Inr (r c h, h\<lparr>user := g c h\<rparr>)"
    by (rule quietE) blast
  then obtain u where o: "OnSetup b ?h0 = Inr ((), ?h0\<lparr>user := u\<rparr>)"
    by (metis (full_types) old.unit.exhaust)
  let ?h1 = "?h0\<lparr>user := u\<rparr>"
  from Cons.prems have "\<forall>b \<in> set bs. 0 \<le> C (StateValue b) \<and>
      C (StateValue b) < int (length ?bt1) \<and> quiet (\<lambda>_ :: unit. OnSetup b)"
    by simp
  from Cons.IH [OF this, of ?h1]
  obtain bt' h' where r: "setup_behaviors bs ?bt1 ?h1 = Inr (bt', h')" "length bt' = length ?bt1"
    "tt h' = tt ?h1" "m h' = m ?h1"
    "trace h' = trace ?h1 @ map (\<lambda>b. (SetupH, C (StateValue b))) bs"
    "\<forall>i. array_get bt' i =
        (case List.find (\<lambda>b. C (StateValue b) = i) (rev bs) of
           Some b \<Rightarrow> Some (Some b) | None \<Rightarrow> array_get ?bt1 i)"
    by blast
  from s o r(1) have run: "setup_behaviors (b # bs) bt h = Inr (bt', h')"
    by (simp add: array_set_def bnd_def Let_def)
  have upd: "array_get ?bt1 i = (if i = ?s then Some (Some b) else array_get bt i)" for i
    using s by (auto simp: array_get_def nth_list_update)
  have "array_get bt' i =
        (case List.find (\<lambda>b. C (StateValue b) = i) (rev (b # bs)) of
           Some b \<Rightarrow> Some (Some b) | None \<Rightarrow> array_get bt i)" for i
    using r(6) upd [of i] by (auto simp: find_snoc split: option.splits)
  with run r(2-5) show ?case by simp
qed

lemma set_tt_effect:
  assumes "length (tt h) = N" and "\<forall>row \<in> set (tt h). length row = N"
    and "0 \<le> a" "a < int N" "0 \<le> b" "b < int N"
  shows "\<exists>h'. set_tt a b h = Inr ((), h') \<and> length (tt h') = N \<and>
     (\<forall>row \<in> set (tt h'). length row = N) \<and> m h' = m h \<and> trace h' = trace h \<and>
     (\<forall>i j. lookup_tt h' i j = (if i = a \<and> j = b then Some True else lookup_tt h i j))"
proof -
  let ?row = "tt h ! nat a"
  let ?h' = "h\<lparr>tt := (tt h)[nat a := ?row[nat b := True]]\<rparr>"
  from assms have len: "length ?row = N" by simp
  with assms have run: "set_tt a b h = Inr ((), ?h')"
    by (simp add: set_tt_def array_get_def array_set_def)
  from assms len have rows: "\<forall>row \<in> set (tt ?h'). length row = N"
    by (auto dest!: set_update_subset_insert [THEN subsetD])
  have "lookup_tt ?h' i j = (if i = a \<and> j = b then Some True else lookup_tt h i j)" for i j
    using assms len
    by (auto simp: lookup_tt_def array_get_def nth_list_update split: option.splits)
  with run rows assms(1) show ?thesis by simp
qed

lemma setup_targets_effect:
  "length (tt h) = N \<Longrightarrow> \<forall>row \<in> set (tt h). length row = N \<Longrightarrow>
   0 \<le> C from \<Longrightarrow> C from < int N \<Longrightarrow> \<forall>to \<in> set tos. 0 \<le> C to \<and> C to < int N \<Longrightarrow>
   \<exists>h'. setup_targets from tos h = Inr ((), h') \<and> length (tt h') = N \<and>
     (\<forall>row \<in> set (tt h'). length row = N) \<and> m h' = m h \<and> trace h' = trace h \<and>
     (\<forall>i j. lookup_tt h' i j =
        (if i = C from \<and> j \<in> C ` set tos then Some True else lookup_tt h i j))"
proof (induction tos arbitrary: h)
  case Nil
  then show ?case by (simp add: ret_def)
next
  case (Cons to tos)
  from Cons.prems have "0 \<le> C to" "C to < int N" by simp_all
  from set_tt_effect [OF Cons.prems(1,2,3,4) this]
  obtain h1 where h1: "set_tt (C from) (C to) h = Inr ((), h1)" "length (tt h1) = N"
    "\<forall>row \<in> set (tt h1). length row = N" "m h1 = m h" "trace h1 = trace h"
    "\<forall>i j. lookup_tt h1 i j = (if i = C from \<and> j = C to then Some True else lookup_tt h i j)"
    by blast
  from Cons.prems have "\<forall>to \<in> set tos. 0 \<le> C to \<and> C to < int N" by simp
  from Cons.IH [OF h1(2,3) Cons.prems(3,4) this]
  obtain h' where h': "setup_targets from tos h1 = Inr ((), h')" "length (tt h') = N"
    "\<forall>row \<in> set (tt h'). length row = N" "m h' = m h1" "trace h' = trace h1"
    "\<forall>i j. lookup_tt h' i j =
        (if i = C from \<and> j \<in> C ` set tos then Some True else lookup_tt h1 i j)"
    by blast
  from h1(1) h'(1) have "setup_targets from (to # tos) h = Inr ((), h')"
    by (simp add: bnd_def)
  moreover have "lookup_tt h' i j =
        (if i = C from \<and> j \<in> C ` set (to # tos) then Some True else lookup_tt h i j)" for i j
    using h1(6) h'(6) by auto
  ultimately show ?case using h1 h' by auto
qed

lemma setup_transitions_effect:
  "length (tt h) = N \<Longrightarrow> \<forall>row \<in> set (tt h). length row = N \<Longrightarrow>
   \<forall>t \<in> set ts. 0 \<le> C (from_state t) \<and> C (from_state t) < int N \<and>
      (\<forall>to \<in> set (targets t). 0 \<le> C to \<and> C to < int N) \<Longrightarrow>
   \<exists>h'. setup_transitions ts h = Inr ((), h') \<and> length (tt h') = N \<and>
     (\<forall>row \<in> set (tt h'). length row = N) \<and> m h' = m h \<and> trace h' = trace h \<and>
     (\<forall>i j. lookup_tt h' i j = (if listed ts i j then Some True else lookup_tt h i j))"
proof (induction ts arbitrary: h)
  case Nil
  then show ?case by (simp add: ret_def listed_def)
next
  case (Cons t ts)
  from Cons.prems have t: "0 \<le> C (from_state t)" "C (from_state t) < int N"
    "\<forall>to \<in> set (targets t). 0 \<le> C to \<and> C to < int N" by simp_all
  from setup_targets_effect [OF Cons.prems(1,2) t]
  obtain h1 where h1: "setup_targets (from_state t) (targets t) h = Inr ((), h1)"
    "length (tt h1) = N" "\<forall>row \<in> set (tt h1). length row = N" "m h1 = m h" "trace h1 = trace h"
    "\<forall>i j. lookup_tt h1 i j =
        (if i = C (from_state t) \<and> j \<in> C ` set (targets t) then Some True else lookup_tt h i j)"
    by blast
  from Cons.prems have "\<forall>t \<in> set ts. 0 \<le> C (from_state t) \<and> C (from_state t) < int N \<and>
      (\<forall>to \<in> set (targets t). 0 \<le> C to \<and> C to < int N)" by simp
  from Cons.IH [OF h1(2,3) this]
  obtain h' where h': "setup_transitions ts h1 = Inr ((), h')" "length (tt h') = N"
    "\<forall>row \<in> set (tt h'). length row = N" "m h' = m h1" "trace h' = trace h1"
    "\<forall>i j. lookup_tt h' i j = (if listed ts i j then Some True else lookup_tt h1 i j)"
    by blast
  from h1(1) h'(1) have "setup_transitions (t # ts) h = Inr ((), h')"
    by (simp add: bnd_def)
  moreover have "lookup_tt h' i j = (if listed (t # ts) i j then Some True else lookup_tt h i j)"
    for i j
    using h1(6) h'(6) by (auto simp: listed_def)
  ultimately show ?case using h1 h' by auto
qed

lemma construct_result:
  assumes "\<forall>b \<in> set behaviors. 0 \<le> C (StateValue b) \<and> C (StateValue b) < int N \<and>
       quiet (\<lambda>_ :: unit. OnSetup b)"
    and "\<forall>t \<in> set transitions. 0 \<le> C (from_state t) \<and> C (from_state t) < int N \<and>
       (\<forall>to \<in> set (targets t). 0 \<le> C to \<and> C to < int N)"
  shows "\<exists>bt h. construct N behaviors transitions u = Inr (bt, h) \<and> length bt = N \<and>
     m h = None \<and> trace h = map (\<lambda>b. (SetupH, C (StateValue b))) behaviors \<and>
     (\<forall>i. 0 \<le> i \<and> i < int N \<longrightarrow>
        array_get bt i = Some (List.find (\<lambda>b. C (StateValue b) = i) (rev behaviors))) \<and>
     (\<forall>i j. 0 \<le> i \<and> i < int N \<and> 0 \<le> j \<and> j < int N \<longrightarrow>
        lookup_tt h i j = Some (listed transitions i j))"
proof -
  let ?h0 = "\<lparr>tt = replicate N (replicate N False), m = None, trace = [], user = u\<rparr>"
  let ?bt0 = "replicate N None :: ('a, 'b) IStateBehavior option list"
  from assms(1) have "\<forall>b \<in> set behaviors. 0 \<le> C (StateValue b) \<and>
      C (StateValue b) < int (length ?bt0) \<and> quiet (\<lambda>_ :: unit. OnSetup b)"
    by simp
  from setup_behaviors_quiet [OF this, of ?h0]
  obtain bt h1 where b: "setup_behaviors behaviors ?bt0 ?h0 = Inr (bt, h1)"
    "length bt = length ?bt0" "tt h1 = tt ?h0" "m h1 = m ?h0"
    "trace h1 = trace ?h0 @ map (\<lambda>b. (SetupH, C (StateValue b))) behaviors"
    "\<forall>i. array_get bt i =
        (case List.find (\<lambda>b. C (StateValue b) = i) (rev behaviors) of
           Some b \<Rightarrow> Some (Some b) | None \<Rightarrow> array_get ?bt0 i)"
    by blast
  from b(3) have sq: "length (tt h1) = N" "\<forall>row \<in> set (tt h1). length row = N"
    by simp_all
  from setup_transitions_effect [OF sq assms(2)]
  obtain h where t: "setup_transitions transitions h1 = Inr ((), h)" "m h = m h1"
    "trace h = trace h1"
    "\<forall>i j. lookup_tt h i j = (if listed transitions i j then Some True else lookup_tt h1 i j)"
    by blast
  from b(1) t(1) have run: "construct N behaviors transitions u = Inr (bt, h)"
    by (simp add: construct_def setup_handler_def bnd_def ret_def)
  have bt: "array_get bt i = Some (List.find (\<lambda>b. C (StateValue b) = i) (rev behaviors))"
    if "0 \<le> i" "i < int N" for i
  proof -
    from that have "array_get ?bt0 i = Some None" by (simp add: array_get_def)
    with b(6) show ?thesis by (simp split: option.splits)
  qed
  have "lookup_tt h1 i j = Some False" if "0 \<le> i" "i < int N" "0 \<le> j" "j < int N" for i j
    using that b(3) by (simp add: lookup_tt_def array_get_def)
  with t(4) have tt: "lookup_tt h i j = Some (listed transitions i j)"
    if "0 \<le> i" "i < int N" "0 \<le> j" "j < int N" for i j
    using that by simp
  from run b(2,4,5) t(2,3) bt tt show ?thesis by simp
qed

lemma listed_in_range:
  assumes "\<forall>t \<in> set transitions. 0 \<le> C (from_state t) \<and> C (from_state t) < int N \<and>
       (\<forall>to \<in> set (targets t). 0 \<le> C to \<and> C to < int N)"
    and "listed transitions i j"
  shows "0 \<le> i \<and> i < int N \<and> 0 \<le> j \<and> j < int N"
  using assms by (auto simp: listed_def)

text \<open>
  C8. When every state value in the two tables is an index of the arrays and the setup
  hooks are quiet, construction succeeds, and for every pair of states the transition table
  says yes exactly when the pair is listed. So a listed pair is allowed, an unlisted one
  is not, and a listed pair whose reverse is not listed is allowed while the reverse is not.
  After construction no sequence of calls to the handler changes the table, whether the
  calls return or the sequence ends in a failure.
\<close>

theorem adjacency_fidelity:
  assumes "\<forall>b \<in> set behaviors. 0 \<le> C (StateValue b) \<and> C (StateValue b) < int N \<and>
       quiet_behavior b"
    and "\<forall>t \<in> set transitions. 0 \<le> C (from_state t) \<and> C (from_state t) < int N \<and>
       (\<forall>to \<in> set (targets t). 0 \<le> C to \<and> C to < int N)"
  shows "\<exists>bt h. construct N behaviors transitions u = Inr (bt, h) \<and>
     (\<forall>from to. 0 \<le> from \<and> from < int N \<and> 0 \<le> to \<and> to < int N \<longrightarrow>
        lookup_tt h from to = Some (listed transitions from to)) \<and>
     (\<forall>a b. listed transitions a b \<and> \<not> listed transitions b a \<longrightarrow>
        lookup_tt h a b = Some True \<and> lookup_tt h b a = Some False) \<and>
     (\<forall>ctx rs. tt (outcome_state (run bt ctx rs h)) = tt h)"
proof -
  from assms(1) have "\<forall>b \<in> set behaviors. 0 \<le> C (StateValue b) \<and> C (StateValue b) < int N \<and>
       quiet (\<lambda>_ :: unit. OnSetup b)"
    by (simp add: quiet_behavior_def)
  from construct_result [OF this assms(2), of u]
  obtain bt h where c: "construct N behaviors transitions u = Inr (bt, h)" "length bt = N"
    "\<forall>i. 0 \<le> i \<and> i < int N \<longrightarrow>
        array_get bt i = Some (List.find (\<lambda>b. C (StateValue b) = i) (rev behaviors))"
    "\<forall>i j. 0 \<le> i \<and> i < int N \<and> 0 \<le> j \<and> j < int N \<longrightarrow>
        lookup_tt h i j = Some (listed transitions i j)"
    by blast
  have "quiet_behavior b" if "Some b \<in> set bt" for b
  proof -
    from that obtain k where k: "k < length bt" "bt ! k = Some b"
      by (auto simp: in_set_conv_nth)
    with c(2) have "array_get bt (int k) = Some (Some b)" by (simp add: array_get_def)
    with c(2,3) k(1) have "List.find (\<lambda>b. C (StateValue b) = int k) (rev behaviors) = Some b"
      by simp
    then have "b \<in> set behaviors" by (auto dest: find_SomeD)
    with assms(1) show ?thesis by simp
  qed
  then have q: "quiet_table bt" by (simp add: quiet_table_def)
  have asym: "lookup_tt h a b = Some True \<and> lookup_tt h b a = Some False"
    if "listed transitions a b" "\<not> listed transitions b a" for a b
    using listed_in_range [OF assms(2) that(1)] c(4) that by simp
  from c(1) c(4) asym run_keeps_tt [OF q] show ?thesis by blast
qed

theorem adjacency_fidelity_witness:
  "(\<exists>bt h. construct 3 behaviorTable transitionTable () = Inr (bt, h) \<and>
      lookup_tt h 0 1 = Some True \<and> lookup_tt h 1 0 = Some False \<and>
      lookup_tt h 1 2 = Some True \<and> lookup_tt h 2 2 = Some False \<and>
      tt (outcome_state (run bt ()
         [Do_SetHandlingFsm \<lparr>stack = [0, 0, 0], top_idx = -1\<rparr>, Do_Push 1, Do_Jump 0] h)) = tt h) \<and>
   listed transitionTable 0 1 \<and> \<not> listed transitionTable 1 0"
proof -
  have a: "\<forall>b \<in> set behaviorTable. 0 \<le> C (StateValue b) \<and> C (StateValue b) < int 3 \<and>
       quiet_behavior b"
    by (simp add: behaviorTable_def quiet_behavior_StateBehavior) (simp add: StateBehavior_def C_def)
  have b: "\<forall>t \<in> set transitionTable. 0 \<le> C (from_state t) \<and> C (from_state t) < int 3 \<and>
       (\<forall>to \<in> set (targets t). 0 \<le> C to \<and> C to < int 3)"
    by (simp add: transitionTable_def C_def)
  have l: "listed transitionTable 0 1" "\<not> listed transitionTable 1 0"
    "listed transitionTable 1 2" "\<not> listed transitionTable 2 2"
    by (simp_all add: listed_def transitionTable_def C_def)
  from adjacency_fidelity [OF a b, of "()"]
  obtain bt h where c: "construct 3 behaviorTable transitionTable () = Inr (bt, h)"
    "\<forall>from to. 0 \<le> from \<and> from < int 3 \<and> 0 \<le> to \<and> to < int 3 \<longrightarrow>
        lookup_tt h from to = Some (listed transitionTable from to)"
    "\<forall>ctx rs. tt (outcome_state (run bt ctx rs h)) = tt h"
    by blast
  from c(2) l have "lookup_tt h 0 1 = Some True" "lookup_tt h 1 0 = Some False"
    "lookup_tt h 1 2 = Some True" "lookup_tt h 2 2 = Some False"
    by simp_all
  with c(1,3) l show ?thesis by blast
qed

text \<open>
  C9 (as amended). Setup has no check for two behaviors with the same state value. When
  every state value is an index of the arrays and the setup hooks are quiet, construction
  always succeeds; entry i of the behavior array is the last behavior of the table whose
  state value is i (unset if there is none), so with distinct state values every behavior
  is recorded at its own index; OnSetup was called once for each behavior of the table, in
  table order, and no machine is bound.
\<close>

theorem setup_records_behaviors:
  assumes "\<forall>b \<in> set behaviors. 0 \<le> C (StateValue b) \<and> C (StateValue b) < int N \<and>
       quiet (\<lambda>_ :: unit. OnSetup b)"
    and "\<forall>t \<in> set transitions. 0 \<le> C (from_state t) \<and> C (from_state t) < int N \<and>
       (\<forall>to \<in> set (targets t). 0 \<le> C to \<and> C to < int N)"
  shows "\<exists>bt h. construct N behaviors transitions u = Inr (bt, h) \<and> length bt = N \<and>
     (\<forall>i. 0 \<le> i \<and> i < int N \<longrightarrow>
        array_get bt i = Some (List.find (\<lambda>b. C (StateValue b) = i) (rev behaviors))) \<and>
     (distinct (map (\<lambda>b. C (StateValue b)) behaviors) \<longrightarrow>
        (\<forall>b \<in> set behaviors. array_get bt (C (StateValue b)) = Some (Some b))) \<and>
     trace h = map (\<lambda>b. (SetupH, C (StateValue b))) behaviors \<and> m h = None"
proof -
  from construct_result [OF assms, of u]
  obtain bt h where c: "construct N behaviors transitions u = Inr (bt, h)" "length bt = N"
    "m h = None" "trace h = map (\<lambda>b. (SetupH, C (StateValue b))) behaviors"
    "\<forall>i. 0 \<le> i \<and> i < int N \<longrightarrow>
        array_get bt i = Some (List.find (\<lambda>b. C (StateValue b) = i) (rev behaviors))"
    by blast
  have "array_get bt (C (StateValue b)) = Some (Some b)"
    if d: "distinct (map (\<lambda>b. C (StateValue b)) behaviors)" and b: "b \<in> set behaviors" for b
  proof -
    let ?P = "\<lambda>b'. C (StateValue b') = C (StateValue b)"
    from d have inj: "inj_on (\<lambda>b. C (StateValue b)) (set behaviors)"
      by (simp add: distinct_map)
    from b have "List.find ?P (rev behaviors) \<noteq> None"
      by (auto simp: find_None_iff)
    then obtain b' where f: "List.find ?P (rev behaviors) = Some b'" by blast
    then have "b' \<in> set behaviors" "?P b'" by (auto dest: find_SomeD)
    with inj b have "b' = b" by (auto dest: inj_onD)
    with f c(5) assms(1) b show ?thesis by simp
  qed
  with c show ?thesis by blast
qed

theorem setup_records_behaviors_witness:
  "\<exists>bt h. construct 3 behaviorTable transitionTable () = Inr (bt, h) \<and> length bt = 3 \<and>
      array_get bt 0 = Some (Some (StateBehavior 0)) \<and>
      array_get bt 1 = Some (Some (StateBehavior 1)) \<and>
      array_get bt 2 = Some (Some (StateBehavior 2)) \<and>
      trace h = [(SetupH, 0), (SetupH, 1), (SetupH, 2)] \<and> m h = None"
proof -
  have a: "\<forall>b \<in> set behaviorTable. 0 \<le> C (StateValue b) \<and> C (StateValue b) < int 3 \<and>
       quiet (\<lambda>_ :: unit. OnSetup b)"
    by (simp add: behaviorTable_def quiet_StateBehavior) (simp add: StateBehavior_def C_def)
  have b: "\<forall>t \<in> set transitionTable. 0 \<le> C (from_state t) \<and> C (from_state t) < int 3 \<and>
       (\<forall>to \<in> set (targets t). 0 \<le> C to \<and> C to < int 3)"
    by (simp add: transitionTable_def C_def)
  have d: "distinct (map (\<lambda>b. C (StateValue b)) behaviorTable)"
    by (simp add: behaviorTable_def StateBehavior_def C_def)
  from setup_records_behaviors [OF a b, of "()"] d
  obtain bt h where c: "construct 3 behaviorTable transitionTable () = Inr (bt, h)"
    "length bt = 3"
    "\<forall>b \<in> set behaviorTable. array_get bt (C (StateValue b)) = Some (Some b)"
    "trace h = map (\<lambda>b. (SetupH, C (StateValue b))) behaviorTable" "m h = None"
    by auto
  from c(3) have "array_get bt 0 = Some (Some (StateBehavior 0))"
    "array_get bt 1 = Some (Some (StateBehavior 1))"
    "array_get bt 2 = Some (Some (StateBehavior 2))"
    by (simp_all add: behaviorTable_def) (simp_all add: StateBehavior_def C_def)
  moreover from c(4) have "trace h = [(SetupH, 0), (SetupH, 1), (SetupH, 2)]"
    by (simp add: behaviorTable_def StateBehavior_def C_def)
  ultimately show ?thesis using c(1,2,5) by blast
qed

text \<open>
  The behavior table of the tests with a fourth behavior that also has state value 0 (and a
  BeforeUpdate of its own, to tell it from the first): construction succeeds, the fourth
  behavior has replaced the first in entry 0, and OnSetup was called on all four.
\<close>

theorem duplicate_state_counterexample:
  "construct 3
     [StateBehavior 0, StateBehavior 1, StateBehavior 2,
      (StateBehavior 0)\<lparr>BeforeUpdate := \<lambda>ctx :: unit. ret True\<rparr>] transitionTable () =
   Inr ([Some ((StateBehavior 0)\<lparr>BeforeUpdate := \<lambda>ctx :: unit. ret True\<rparr>),
         Some (StateBehavior 1), Some (StateBehavior 2)],
        test_handler None [(SetupH, 0), (SetupH, 1), (SetupH, 2), (SetupH, 0)])"
  by (simp add: construct_def setup_handler_def transitionTable_def M_defs fixture_defs
      set_tt_def numeral_3_eq_3)

subsection \<open>Push on an empty bound record\<close>



end
